theory Spec2Isabelle
  imports Complex_Main "HOL-Library.AList" "HOL-Library.Char_ord" "HOL-Library.List_Lexorder"
begin

section \<open>Python strings\<close>

text \<open>
  A Python \<^verbatim>\<open>str\<close> is modelled as a \<open>string\<close> whose characters are the code points
  below 256.  On these, \<^verbatim>\<open>\d\<close> is the ASCII digits, \<^verbatim>\<open>\s\<close> and \<^verbatim>\<open>str.strip()\<close> use
  the white-space code points 9-13, 28-32, 133 and 160, and the cased letters are
  A-Z / a-z and the Latin-1 letters 192-222 / 224-254 (without 215 and 247).
\<close>

definition isdigit :: "char \<Rightarrow> bool" where
  "isdigit c = (c \<in> set ''0123456789'')"

definition isspace :: "char \<Rightarrow> bool" where
  "isspace c = (let n = (of_char c :: nat)
                in (9 \<le> n \<and> n \<le> 13) \<or> (28 \<le> n \<and> n \<le> 32) \<or> n = 133 \<or> n = 160)"

definition isupper :: "char \<Rightarrow> bool" where
  "isupper c = (let n = (of_char c :: nat)
                in (65 \<le> n \<and> n \<le> 90) \<or> (192 \<le> n \<and> n \<le> 214) \<or> (216 \<le> n \<and> n \<le> 222))"

definition islower :: "char \<Rightarrow> bool" where
  "islower c = (let n = (of_char c :: nat)
                in (97 \<le> n \<and> n \<le> 122) \<or> (224 \<le> n \<and> n \<le> 246) \<or> (248 \<le> n \<and> n \<le> 254))"

definition lower_char :: "char \<Rightarrow> char" where
  "lower_char c = (if isupper c then char_of (of_char c + (32::nat)) else c)"

definition upper_char :: "char \<Rightarrow> char" where
  "upper_char c = (if islower c then char_of (of_char c - (32::nat)) else c)"

text \<open>\<^verbatim>\<open>s.lower()\<close>, \<^verbatim>\<open>s.strip()\<close>, \<^verbatim>\<open>sub in s\<close>, \<^verbatim>\<open>s.split(sep)\<close> for a one-character
  separator, and \<^verbatim>\<open>sep.join(xs)\<close>.\<close>

definition lower :: "string \<Rightarrow> string" where
  "lower s = map lower_char s"

definition strip :: "string \<Rightarrow> string" where
  "strip s = rev (dropWhile isspace (rev (dropWhile isspace s)))"

fun contains :: "string \<Rightarrow> string \<Rightarrow> bool" where
  "contains sub [] = (sub = [])"
| "contains sub (x # xs) = (take (length sub) (x # xs) = sub \<or> contains sub xs)"

fun split_char :: "char \<Rightarrow> string \<Rightarrow> string list" where
  "split_char sep [] = [[]]"
| "split_char sep (x # xs) =
     (if x = sep then [] # split_char sep xs
      else (case split_char sep xs of [] \<Rightarrow> [[x]] | w # ws \<Rightarrow> (x # w) # ws))"

fun join :: "string \<Rightarrow> string list \<Rightarrow> string" where
  "join sep [] = []"
| "join sep [x] = x"
| "join sep (x # y # ys) = x @ sep @ join sep (y # ys)"

section \<open>Regular expressions (the patterns of the \<^verbatim>\<open>re\<close> calls)\<close>

text \<open>
  A backtracking matcher in the order Python's \<^verbatim>\<open>re\<close> explores: \<open>matches ic r (s, g)\<close>
  lists, most preferred first, the ways \<open>r\<close> can match a prefix of \<open>s\<close>, each as the
  remaining input and the text captured by the group so far.  \<open>ic\<close> is
  \<^verbatim>\<open>re.IGNORECASE\<close>.  \<open>Rep m n r\<close> is the greedy \<^verbatim>\<open>r{m,n}\<close> (\<open>None\<close>: no upper bound),
  \<open>LazyPlus r\<close> is \<^verbatim>\<open>r+?\<close>, \<open>Eol\<close> is \<^verbatim>\<open>$\<close> (the end, or just before a final newline).
  An iteration of a repetition must consume input; every repeated pattern below does.
\<close>

datatype regex =
    Eps
  | Lit char
  | Cls "char \<Rightarrow> bool"
  | Dot
  | Eol
  | Seq regex regex
  | Alt regex regex
  | Rep nat "nat option" regex
  | LazyPlus regex
  | Grp regex

type_synonym mstate = "string \<times> string option"

fun dec :: "nat option \<Rightarrow> nat option" where
  "dec None = None"
| "dec (Some n) = Some (n - 1)"

fun matches :: "bool \<Rightarrow> regex \<Rightarrow> mstate \<Rightarrow> mstate list" where
  "matches ic Eps st = [st]"
| "matches ic (Lit c) (s, g) =
     (case s of [] \<Rightarrow> []
      | x # xs \<Rightarrow> if x = c \<or> (ic \<and> lower_char x = lower_char c) then [(xs, g)] else [])"
| "matches ic (Cls p) (s, g) =
     (case s of [] \<Rightarrow> []
      | x # xs \<Rightarrow> if p x \<or> (ic \<and> (p (lower_char x) \<or> p (upper_char x))) then [(xs, g)] else [])"
| "matches ic Dot (s, g) =
     (case s of [] \<Rightarrow> [] | x # xs \<Rightarrow> if x \<noteq> CHR 0x0A then [(xs, g)] else [])"
| "matches ic Eol (s, g) = (if s = [] \<or> s = [CHR 0x0A] then [(s, g)] else [])"
| "matches ic (Seq r1 r2) st = concat (map (matches ic r2) (matches ic r1 st))"
| "matches ic (Alt r1 r2) st = matches ic r1 st @ matches ic r2 st"
| "matches ic (Rep m n r) (s, g) =
     (if n = Some 0 then [(s, g)]
      else concat (map (\<lambda>st'. matches ic (Rep (m - 1) (dec n) r) st')
                    (filter (\<lambda>st'. length (fst st') < length s) (matches ic r (s, g))))
           @ (if m = 0 then [(s, g)] else []))"
| "matches ic (LazyPlus r) (s, g) =
     concat (map (\<lambda>st'. st' # matches ic (LazyPlus r) st')
                 (filter (\<lambda>st'. length (fst st') < length s) (matches ic r (s, g))))"
| "matches ic (Grp r) (s, g) =
     map (\<lambda>(s', g'). (s', Some (take (length s - length s') s))) (matches ic r (s, g))"

definition seqs :: "regex list \<Rightarrow> regex" where
  "seqs rs = foldr Seq rs Eps"

definition lits :: "string \<Rightarrow> regex" where
  "lits s = seqs (map Lit s)"

fun alts :: "regex list \<Rightarrow> regex" where
  "alts [] = Eps"
| "alts [r] = r"
| "alts (r # rs) = Alt r (alts rs)"

definition exactly :: "nat \<Rightarrow> regex \<Rightarrow> regex" where
  "exactly n r = Rep n (Some n) r"

text \<open>\<^verbatim>\<open>re.match\<close>: the preferred match at the start of the string, if any.\<close>

definition match_at :: "bool \<Rightarrow> regex \<Rightarrow> string \<Rightarrow> mstate option" where
  "match_at ic r s = (case matches ic r (s, None) of [] \<Rightarrow> None | st # _ \<Rightarrow> Some st)"

definition re_match :: "bool \<Rightarrow> regex \<Rightarrow> string \<Rightarrow> bool" where
  "re_match ic r s = (match_at ic r s \<noteq> None)"

text \<open>\<^verbatim>\<open>re.search\<close>: is there a match starting at some position, scanning left to right.\<close>

fun re_search :: "bool \<Rightarrow> regex \<Rightarrow> string \<Rightarrow> bool" where
  "re_search ic r [] = re_match ic r []"
| "re_search ic r (x # xs) = (re_match ic r (x # xs) \<or> re_search ic r xs)"

text \<open>
  \<^verbatim>\<open>re.findall\<close>: the non-overlapping matches from left to right; each contributes the
  text of its group when the pattern has one, else the matched text.  \<^verbatim>\<open>re.sub(r, '', s)\<close>
  deletes the same matches.  After a match the scan resumes where it ended.
\<close>

function findall :: "bool \<Rightarrow> regex \<Rightarrow> string \<Rightarrow> string list" where
  "findall ic r s =
     (case match_at ic r s of
        None \<Rightarrow> (case s of [] \<Rightarrow> [] | x # xs \<Rightarrow> findall ic r xs)
      | Some (s', g) \<Rightarrow>
          (case g of None \<Rightarrow> take (length s - length s') s | Some t \<Rightarrow> t)
          # (if length s' < length s then findall ic r s'
             else (case s of [] \<Rightarrow> [] | x # xs \<Rightarrow> findall ic r xs)))"
  by pat_completeness auto
termination
  by (relation "measure (\<lambda>(ic, r, s). length s)") auto

function re_sub_empty :: "bool \<Rightarrow> regex \<Rightarrow> string \<Rightarrow> string" where
  "re_sub_empty ic r s =
     (case match_at ic r s of
        None \<Rightarrow> (case s of [] \<Rightarrow> [] | x # xs \<Rightarrow> x # re_sub_empty ic r xs)
      | Some (s', g) \<Rightarrow>
          (if length s' < length s then re_sub_empty ic r s'
           else (case s of [] \<Rightarrow> [] | x # xs \<Rightarrow> x # re_sub_empty ic r xs)))"
  by pat_completeness auto
termination
  by (relation "measure (\<lambda>(ic, r, s). length s)") auto

section \<open>Structured field extraction (data_extractor.py)\<close>

definition digit :: regex where
  "digit = Cls isdigit"

definition space :: regex where
  "space = Cls isspace"

text \<open>\<^verbatim>\<open>\d{3}-\d{7}-\d{7}\<close>\<close>

definition ORDER_ID_PATTERN :: regex where
  "ORDER_ID_PATTERN =
     seqs [exactly 3 digit, Lit (CHR ''-''), exactly 7 digit, Lit (CHR ''-''), exactly 7 digit]"

text \<open>\<^verbatim>\<open>\$\d{1,3}(?:,\d{3})*(?:\.\d{2})?\<close>\<close>

definition PRICE_PATTERN :: regex where
  "PRICE_PATTERN =
     seqs [Lit (CHR ''$''), Rep 1 (Some 3) digit,
           Rep 0 None (seqs [Lit (CHR '',''), exactly 3 digit]),
           Rep 0 (Some 1) (seqs [Lit (CHR ''.''), exactly 2 digit])]"

text \<open>\<^verbatim>\<open>(?:Jan|Feb|Mar|Apr|May|Jun|Jul|Aug|Sep|Oct|Nov|Dec)[a-z]*\.?\s+\d{1,2},?\s+\d{4}\<close>\<close>

definition DATE_PATTERN :: regex where
  "DATE_PATTERN =
     seqs [alts (map lits [''Jan'', ''Feb'', ''Mar'', ''Apr'', ''May'', ''Jun'',
                           ''Jul'', ''Aug'', ''Sep'', ''Oct'', ''Nov'', ''Dec'']),
           Rep 0 None (Cls (\<lambda>c. c \<in> set ''abcdefghijklmnopqrstuvwxyz'')),
           Rep 0 (Some 1) (Lit (CHR ''.'')), Rep 1 None space,
           Rep 1 (Some 2) digit, Rep 0 (Some 1) (Lit (CHR '','')), Rep 1 None space,
           exactly 4 digit]"

text \<open>\<^verbatim>\<open>(?:Order Total|Grand Total|Total|Subtotal)[\s:]*(\$\d{1,3}(?:,\d{3})*(?:\.\d{2})?)\<close>\<close>

definition TOTAL_PATTERN :: regex where
  "TOTAL_PATTERN =
     seqs [alts (map lits [''Order Total'', ''Grand Total'', ''Total'', ''Subtotal'']),
           Rep 0 None (Cls (\<lambda>c. isspace c \<or> c = CHR '':'')),
           Grp PRICE_PATTERN]"

text \<open>\<^verbatim>\<open>(?:Qty|Quantity)[\.:]?\s*(\d+)\<close>\<close>

definition QUANTITY_PATTERN :: regex where
  "QUANTITY_PATTERN =
     seqs [alts (map lits [''Qty'', ''Quantity'']),
           Rep 0 (Some 1) (Cls (\<lambda>c. c = CHR ''.'' \<or> c = CHR '':'')),
           Rep 0 None space, Grp (Rep 1 None digit)]"

text \<open>\<^verbatim>\<open>Sold by[:\s]*(.+?)(?:\n|$)\<close>\<close>

definition SELLER_PATTERN :: regex where
  "SELLER_PATTERN =
     seqs [lits ''Sold by'', Rep 0 None (Cls (\<lambda>c. c = CHR '':'' \<or> isspace c)),
           Grp (LazyPlus Dot), Alt (Lit (CHR 0x0A)) Eol]"

text \<open>\<^verbatim>\<open>(?:Tracking|Track)[:\s]*([A-Z0-9]{10,})\<close>\<close>

definition TRACKING_PATTERN :: regex where
  "TRACKING_PATTERN =
     seqs [alts (map lits [''Tracking'', ''Track'']),
           Rep 0 None (Cls (\<lambda>c. c = CHR '':'' \<or> isspace c)),
           Grp (Rep 10 None (Cls (\<lambda>c. c \<in> set ''ABCDEFGHIJKLMNOPQRSTUVWXYZ'' \<or> isdigit c)))]"

text \<open>
  Two library calls of the extractor depend on the Python runtime and are parameters:
  \<^verbatim>\<open>list(set(xs))\<close>, whose order is that of the hash table, and
  \<^verbatim>\<open>datetime.strptime(s, '%b %d %Y').strftime('%Y-%m-%d')\<close>, which depends on the locale
  (\<open>None\<close> when \<^verbatim>\<open>strptime\<close> raises).
\<close>

record py_runtime =
  list_of_set :: "string list \<Rightarrow> string list"
  strptime_strftime :: "string \<Rightarrow> string option"

definition extract_order_ids :: "py_runtime \<Rightarrow> string \<Rightarrow> string list" where
  "extract_order_ids rt text = list_of_set rt (findall False ORDER_ID_PATTERN text)"

definition extract_prices :: "string \<Rightarrow> string list" where
  "extract_prices text = findall False PRICE_PATTERN text"

text \<open>The loop of \<^verbatim>\<open>extract_dates\<close>; the bare \<^verbatim>\<open>except\<close> keeps the match as it is.\<close>

fun normalize_dates :: "py_runtime \<Rightarrow> string list \<Rightarrow> string list \<Rightarrow> string list" where
  "normalize_dates rt [] normalized = normalized"
| "normalize_dates rt (date_str # ds) normalized =
     (case strptime_strftime rt (filter (\<lambda>c. c \<noteq> CHR '','') date_str) of
        Some d \<Rightarrow> normalize_dates rt ds (normalized @ [d])
      | None \<Rightarrow> normalize_dates rt ds (normalized @ [date_str]))"

definition extract_dates :: "py_runtime \<Rightarrow> string \<Rightarrow> string list" where
  "extract_dates rt text = normalize_dates rt (findall True DATE_PATTERN text) []"

definition extract_totals :: "string \<Rightarrow> string list" where
  "extract_totals text = findall True TOTAL_PATTERN text"

definition extract_quantities :: "string \<Rightarrow> string list" where
  "extract_quantities text = findall True QUANTITY_PATTERN text"

definition extract_sellers :: "py_runtime \<Rightarrow> string \<Rightarrow> string list" where
  "extract_sellers rt text =
     list_of_set rt (map strip (filter (\<lambda>s. length (strip s) > 2) (findall False SELLER_PATTERN text)))"

definition extract_tracking_numbers :: "py_runtime \<Rightarrow> string \<Rightarrow> string list" where
  "extract_tracking_numbers rt text = list_of_set rt (findall True TRACKING_PATTERN text)"

text \<open>\<^verbatim>\<open>\$[\d,]+\.?\d*|\d{3}-\d{7}.*\<close>, the pattern that \<^verbatim>\<open>extract_items\<close> deletes from a line.\<close>

definition ITEM_CLEAN_PATTERN :: regex where
  "ITEM_CLEAN_PATTERN =
     Alt (seqs [Lit (CHR ''$''), Rep 1 None (Cls (\<lambda>c. isdigit c \<or> c = CHR '','')),
                Rep 0 (Some 1) (Lit (CHR ''.'')), Rep 0 None digit])
         (seqs [exactly 3 digit, Lit (CHR ''-''), exactly 7 digit, Rep 0 None Dot])"

definition skip_keywords :: "string list" where
  "skip_keywords =
     [''total'', ''shipping'', ''tax'', ''qty'', ''quantity'', ''sold by'',
      ''order'', ''delivery'', ''arrives'', ''return'', ''refund'',
      ''customer'', ''account'', ''payment'', ''credit'', ''gift'']"

text \<open>\<^verbatim>\<open>[line.strip() for line in text.split('\n') if line.strip()]\<close>\<close>

definition item_lines :: "string \<Rightarrow> string list" where
  "item_lines text = map strip (filter (\<lambda>line. strip line \<noteq> []) (split_char (CHR 0x0A) text))"

definition clean_line :: "string \<Rightarrow> string" where
  "clean_line line = strip (re_sub_empty False ITEM_CLEAN_PATTERN line)"

text \<open>The first loop of \<^verbatim>\<open>extract_items\<close>, with its two \<^verbatim>\<open>continue\<close> statements.\<close>

fun items_loop :: "string list \<Rightarrow> string list \<Rightarrow> string list" where
  "items_loop [] items = items"
| "items_loop (line # ls) items =
     (let clean = clean_line line
      in if length clean < 15 then items_loop ls items
         else if list_ex (\<lambda>keyword. contains keyword (lower clean)) skip_keywords
              then items_loop ls items
         else if clean \<noteq> [] \<and> isupper (hd clean) then items_loop ls (items @ [clean])
         else items_loop ls items)"

text \<open>The second loop: remove duplicates while preserving order.\<close>

fun unique_loop :: "string list \<Rightarrow> string set \<Rightarrow> string list \<Rightarrow> string list" where
  "unique_loop [] seen unique_items = unique_items"
| "unique_loop (item # is) seen unique_items =
     (if item \<notin> seen then unique_loop is (insert item seen) (unique_items @ [item])
      else unique_loop is seen unique_items)"

definition extract_items :: "string \<Rightarrow> string list" where
  "extract_items text = unique_loop (items_loop (item_lines text) []) {} []"

section \<open>Python dictionaries and field sets\<close>

text \<open>
  A Python \<^verbatim>\<open>dict\<close> with string keys is an association list in insertion order;
  \<^verbatim>\<open>d.get(k)\<close> is \<open>map_of d k\<close> and \<^verbatim>\<open>d[k] = v\<close> is \<open>AList.update k v d\<close>
  (replace in place, or append a new key at the end).  A field set maps field keys to
  lists of strings.
\<close>

type_synonym 'v dict = "(string \<times> 'v) list"
type_synonym fieldset = "string list dict"

definition keys :: "'v dict \<Rightarrow> string list" where
  "keys d = map fst d"

text \<open>\<^verbatim>\<open>d.get(key, [])\<close>.\<close>

definition get_or_empty :: "fieldset \<Rightarrow> string \<Rightarrow> string list" where
  "get_or_empty d key = (case map_of d key of None \<Rightarrow> [] | Some v \<Rightarrow> v)"

text \<open>Truth value of \<^verbatim>\<open>d.get(key)\<close>: a missing key gives \<^verbatim>\<open>None\<close>, an empty list is false.\<close>

definition get_truthy :: "fieldset \<Rightarrow> string \<Rightarrow> bool" where
  "get_truthy d key = (case map_of d key of None \<Rightarrow> False | Some v \<Rightarrow> v \<noteq> [])"

definition field_keys :: "string list" where
  "field_keys = [''order_ids'', ''prices'', ''dates'', ''totals'', ''quantities'',
                 ''sellers'', ''tracking_numbers'', ''items'']"

section \<open>Configuration (config.py)\<close>

text \<open>A crop strategy is the dict with keys \<^verbatim>\<open>name\<close>, \<^verbatim>\<open>top\<close>, \<^verbatim>\<open>bottom\<close>, \<^verbatim>\<open>left\<close>, \<^verbatim>\<open>right\<close>.\<close>

record crop_strategy =
  crop_name :: string
  crop_top :: real
  crop_bottom :: real
  crop_left :: real
  crop_right :: real

record extractor_config =
  ai_mode :: string
  tesseract_confidence_threshold :: real
  crop_strategies :: "crop_strategy list"

definition default_crop_strategies :: "crop_strategy list" where
  "default_crop_strategies =
     [\<lparr>crop_name = ''No Bottom 20%'', crop_top = 0, crop_bottom = 0.2, crop_left = 0, crop_right = 0\<rparr>,
      \<lparr>crop_name = ''No Top 20%'', crop_top = 0.2, crop_bottom = 0, crop_left = 0, crop_right = 0\<rparr>,
      \<lparr>crop_name = ''No Top 15%'', crop_top = 0.15, crop_bottom = 0, crop_left = 0, crop_right = 0\<rparr>,
      \<lparr>crop_name = ''Center 80%'', crop_top = 0.1, crop_bottom = 0.1, crop_left = 0.1, crop_right = 0.1\<rparr>,
      \<lparr>crop_name = ''Tight Center'', crop_top = 0.1, crop_bottom = 0.1, crop_left = 0.05, crop_right = 0.05\<rparr>]"

definition default_config :: extractor_config where
  "default_config =
     \<lparr>ai_mode = ''never'', tesseract_confidence_threshold = 70,
      crop_strategies = default_crop_strategies\<rparr>"

section \<open>Escalation policy and merge (extractor.py)\<close>

definition should_use_ai :: "extractor_config \<Rightarrow> fieldset \<Rightarrow> real \<Rightarrow> bool" where
  "should_use_ai cfg extracted ocr_conf =
     (if ai_mode cfg = ''always'' then True
      else if ai_mode cfg = ''never'' then False
      else if ocr_conf < tesseract_confidence_threshold cfg then True
      else if \<not> get_truthy extracted ''order_ids'' then True
      else if \<not> get_truthy extracted ''items'' then True
      else False)"

text \<open>The loop of \<^verbatim>\<open>_merge_results\<close> over \<^verbatim>\<open>ocr_data.keys()\<close>, building \<^verbatim>\<open>merged\<close>.\<close>

fun merge_loop :: "string list \<Rightarrow> fieldset \<Rightarrow> fieldset \<Rightarrow> fieldset \<Rightarrow> fieldset" where
  "merge_loop [] ocr_data ai_data merged = merged"
| "merge_loop (key # ks) ocr_data ai_data merged =
     (let ai_values = get_or_empty ai_data key;
          ocr_values = get_or_empty ocr_data key
      in merge_loop ks ocr_data ai_data
           (AList.update key
              (if ai_values \<noteq> [] then ai_values
               else if ocr_values \<noteq> [] then ocr_values
               else []) merged))"

definition merge_results :: "fieldset \<Rightarrow> fieldset \<Rightarrow> fieldset" where
  "merge_results ocr_data ai_data = merge_loop (keys ocr_data) ocr_data ai_data []"

section \<open>Extraction of all fields and validation (data_extractor.py)\<close>

definition extract_all :: "py_runtime \<Rightarrow> string \<Rightarrow> fieldset" where
  "extract_all rt text =
     [(''order_ids'', extract_order_ids rt text),
      (''prices'', extract_prices text),
      (''dates'', extract_dates rt text),
      (''totals'', extract_totals text),
      (''quantities'', extract_quantities text),
      (''sellers'', extract_sellers rt text),
      (''tracking_numbers'', extract_tracking_numbers rt text),
      (''items'', extract_items text)]"

text \<open>\<^verbatim>\<open>re.match(r'^\d{3}-\d{7}-\d{7}$', order_id)\<close>; \<^verbatim>\<open>re.match\<close> starts at the beginning of
  the string, where \<^verbatim>\<open>^\<close> holds.\<close>

definition VALID_ORDER_ID_PATTERN :: regex where
  "VALID_ORDER_ID_PATTERN = Seq ORDER_ID_PATTERN Eol"

definition validate_order_id :: "string \<Rightarrow> bool" where
  "validate_order_id order_id =
     (if order_id = [] then False else re_match False VALID_ORDER_ID_PATTERN order_id)"

text \<open>
  \<^verbatim>\<open>calculate_confidence\<close>: the score is updated in place four times.  Python floats are
  modelled as reals.
\<close>

definition calculate_confidence :: "fieldset \<Rightarrow> real \<Rightarrow> real" where
  "calculate_confidence extracted_data ocr_confidence =
     (let score0 = ocr_confidence * 0.4;
          score1 = (if get_truthy extracted_data ''order_ids''
                    then (if validate_order_id (hd (get_or_empty extracted_data ''order_ids''))
                          then score0 + 25 else score0)
                    else score0);
          score2 = (if get_truthy extracted_data ''items''
                    then score1 + real (min (length (get_or_empty extracted_data ''items'') * 5) 20)
                    else score1);
          score3 = (if get_truthy extracted_data ''totals'' then score2 + 10 else score2);
          score4 = (if get_truthy extracted_data ''dates'' then score3 + 5 else score3)
      in min score4 100)"

text \<open>
  The confidence formula as the specification words it: the order-id bonus is granted
  when some element of \<open>order_ids\<close> is exactly of the form 3 digits, dash, 7 digits,
  dash, 7 digits.
\<close>

definition exact_order_id :: "string \<Rightarrow> bool" where
  "exact_order_id s =
     (length s = 19 \<and> list_all isdigit (take 3 s) \<and> s ! 3 = CHR ''-'' \<and>
      list_all isdigit (take 7 (drop 4 s)) \<and> s ! 11 = CHR ''-'' \<and>
      list_all isdigit (drop 12 s))"

definition calculate_confidence_spec :: "fieldset \<Rightarrow> real \<Rightarrow> real" where
  "calculate_confidence_spec extracted_data ocr_confidence =
     max 0 (min 100
       (0.4 * ocr_confidence
        + (if list_ex exact_order_id (get_or_empty extracted_data ''order_ids'') then 25 else 0)
        + (if get_or_empty extracted_data ''items'' \<noteq> []
           then min (5 * real (length (get_or_empty extracted_data ''items''))) 20 else 0)
        + (if get_or_empty extracted_data ''totals'' \<noteq> [] then 10 else 0)
        + (if get_or_empty extracted_data ''dates'' \<noteq> [] then 5 else 0)))"

section \<open>Normalising an AI response (ai_providers.py)\<close>

text \<open>A value produced by \<^verbatim>\<open>json.loads\<close>; a JSON object is a dict.\<close>

datatype json =
    JNull
  | JBool bool
  | JInt int
  | JFloat real
  | JStr string
  | JArr "json list"
  | JObj "(string \<times> json) list"

datatype py_error = AttributeError | ValueError | KeyError | EngineError

text \<open>Python truth value of a JSON value, and of \<^verbatim>\<open>d.get(key)\<close>.\<close>

fun truthy :: "json \<Rightarrow> bool" where
  "truthy JNull = False"
| "truthy (JBool b) = b"
| "truthy (JInt i) = (i \<noteq> 0)"
| "truthy (JFloat x) = (x \<noteq> 0)"
| "truthy (JStr s) = (s \<noteq> [])"
| "truthy (JArr xs) = (xs \<noteq> [])"
| "truthy (JObj kvs) = (kvs \<noteq> [])"

definition json_get_truthy :: "json dict \<Rightarrow> string \<Rightarrow> bool" where
  "json_get_truthy d key = (case map_of d key of None \<Rightarrow> False | Some v \<Rightarrow> truthy v)"

text \<open>\<^verbatim>\<open>result[key].append(v)\<close> and \<^verbatim>\<open>result[key].extend(vs)\<close>.\<close>

definition dict_extend :: "fieldset \<Rightarrow> string \<Rightarrow> string list \<Rightarrow> fieldset" where
  "dict_extend d key vs = AList.update key (get_or_empty d key @ vs) d"

definition dict_append :: "fieldset \<Rightarrow> string \<Rightarrow> string \<Rightarrow> fieldset" where
  "dict_append d key v = dict_extend d key [v]"

text \<open>
  \<^verbatim>\<open>if data.get(src): result[dst].append(str(data[src]))\<close>.  The builtin \<^verbatim>\<open>str\<close> on a
  JSON value is the parameter \<open>str_of\<close>.
\<close>

definition append_if_present ::
  "(json \<Rightarrow> string) \<Rightarrow> json dict \<Rightarrow> string \<Rightarrow> string \<Rightarrow> fieldset \<Rightarrow> fieldset" where
  "append_if_present str_of data src dst result =
     (if json_get_truthy data src
      then (case map_of data src of None \<Rightarrow> result
            | Some v \<Rightarrow> dict_append result dst (str_of v))
      else result)"

text \<open>The loop over \<^verbatim>\<open>items_data\<close>; an element that is not a dict is skipped.\<close>

fun normalize_items :: "(json \<Rightarrow> string) \<Rightarrow> json list \<Rightarrow> fieldset \<Rightarrow> fieldset" where
  "normalize_items str_of [] result = result"
| "normalize_items str_of (JObj item # is) result =
     normalize_items str_of is
       (append_if_present str_of item ''price'' ''prices''
         (append_if_present str_of item ''quantity'' ''quantities''
           (append_if_present str_of item ''name'' ''items'' result)))"
| "normalize_items str_of (_ # is) result = normalize_items str_of is result"

definition empty_fieldset :: fieldset where
  "empty_fieldset =
     [(''order_ids'', []), (''prices'', []), (''dates'', []), (''totals'', []),
      (''quantities'', []), (''sellers'', []), (''tracking_numbers'', []), (''items'', [])]"

text \<open>
  \<^verbatim>\<open>_normalize_to_lists\<close>.  On a value that is not a dict the first \<^verbatim>\<open>data.get\<close> raises
  \<^verbatim>\<open>AttributeError\<close>.
\<close>

definition normalize_to_lists :: "(json \<Rightarrow> string) \<Rightarrow> json \<Rightarrow> py_error + fieldset" where
  "normalize_to_lists str_of response =
     (case response of
        JObj data \<Rightarrow>
          (let r1 = append_if_present str_of data ''order_id'' ''order_ids'' empty_fieldset;
               r2 = append_if_present str_of data ''order_date'' ''dates'' r1;
               r3 = append_if_present str_of data ''total'' ''totals'' r2;
               r4 = append_if_present str_of data ''seller'' ''sellers'' r3;
               r5 = append_if_present str_of data ''tracking_number'' ''tracking_numbers'' r4;
               r6 = (case map_of data ''items'' of
                       Some (JArr items_data) \<Rightarrow> normalize_items str_of items_data r5
                     | _ \<Rightarrow> r5);
               r7 = (case map_of data ''other_prices'' of
                       Some (JArr other_prices) \<Rightarrow>
                         dict_extend r6 ''prices'' (map str_of (filter truthy other_prices))
                     | _ \<Rightarrow> r6)
           in Inr r7)
      | _ \<Rightarrow> Inl AttributeError)"

section \<open>Text recognition (ocr_engine.py)\<close>

text \<open>
  An element of \<^verbatim>\<open>data['conf']\<close> is a Python object: pytesseract converts a cell to
  \<^verbatim>\<open>int\<close> when it can and leaves it a \<^verbatim>\<open>str\<close> otherwise.  The comparison \<^verbatim>\<open>c != '-1'\<close>
  is then the disequality with \<open>PyStr ''-1''\<close>: an \<^verbatim>\<open>int\<close> is never equal to a \<^verbatim>\<open>str\<close>.
  The builtin \<^verbatim>\<open>int\<close> on a string is the parameter \<open>int_of_str\<close> (\<open>None\<close>: \<^verbatim>\<open>ValueError\<close>).
\<close>

datatype py_value = PyStr string | PyInt int

fun py_int :: "(string \<Rightarrow> int option) \<Rightarrow> py_value \<Rightarrow> int option" where
  "py_int int_of_str (PyInt i) = Some i"
| "py_int int_of_str (PyStr s) = int_of_str s"

text \<open>
  The image operations and the engine are the collaborators of the class: \<open>binarize\<close> is
  the chain \<^verbatim>\<open>cvtColor\<close>, \<^verbatim>\<open>medianBlur\<close>, \<^verbatim>\<open>resize\<close>, \<^verbatim>\<open>adaptiveThreshold\<close>; the two
  pytesseract calls return a value or raise.
\<close>

record ('img, 'bin) ocr_backend =
  binarize :: "'img \<Rightarrow> 'bin"
  bitwise_not :: "'bin \<Rightarrow> 'bin"
  image_to_data_conf :: "'bin \<Rightarrow> py_error + py_value list"
  image_to_string :: "'bin \<Rightarrow> py_error + string"
  int_of_str :: "string \<Rightarrow> int option"

definition mean :: "int list \<Rightarrow> real" where
  "mean xs = real_of_int (sum_list xs) / real (length xs)"

text \<open>\<^verbatim>\<open>_ocr_with_confidence\<close>: any exception gives the empty text and confidence 0.\<close>

definition ocr_with_confidence :: "('img, 'bin) ocr_backend \<Rightarrow> 'bin \<Rightarrow> string \<times> real" where
  "ocr_with_confidence eng img =
     (case image_to_data_conf eng img of
        Inl e \<Rightarrow> ([], 0)
      | Inr conf \<Rightarrow>
          (case those (map (py_int (int_of_str eng)) (filter (\<lambda>c. c \<noteq> PyStr ''-1'') conf)) of
             None \<Rightarrow> ([], 0)
           | Some confidences \<Rightarrow>
               (let mean_conf = (if confidences \<noteq> [] then mean confidences else 0)
                in case image_to_string eng img of
                     Inl e \<Rightarrow> ([], 0)
                   | Inr text \<Rightarrow> (strip text, mean_conf))))"

definition preprocess_image :: "('img, 'bin) ocr_backend \<Rightarrow> 'img \<Rightarrow> string \<times> real \<times> 'bin" where
  "preprocess_image eng img =
     (let thresh = binarize eng img;
          inv_thresh = bitwise_not eng thresh;
          (text_normal, conf_normal) = ocr_with_confidence eng thresh;
          (text_inv, conf_inv) = ocr_with_confidence eng inv_thresh
      in if conf_normal \<ge> conf_inv then (text_normal, conf_normal, thresh)
         else (text_inv, conf_inv, inv_thresh))"

section \<open>Crop search (image_processor.py)\<close>

text \<open>
  An image is its rows of pixels; \<^verbatim>\<open>image.shape[:2]\<close> is (height, width).  \<^verbatim>\<open>int(x)\<close>
  truncates towards zero, and a slice \<^verbatim>\<open>xs[a:b]\<close> counts a negative index from the end
  and clips both to the length.
\<close>

type_synonym 'px image = "'px list list"

definition height :: "'px image \<Rightarrow> nat" where
  "height img = length img"

definition width :: "'px image \<Rightarrow> nat" where
  "width img = (case img of [] \<Rightarrow> 0 | row # _ \<Rightarrow> length row)"

definition int_trunc :: "real \<Rightarrow> int" where
  "int_trunc x = (if x \<ge> 0 then \<lfloor>x\<rfloor> else \<lceil>x\<rceil>)"

definition slice_index :: "int \<Rightarrow> int \<Rightarrow> nat" where
  "slice_index i n = nat (if i < 0 then max 0 (i + n) else min i n)"

definition py_slice :: "'a list \<Rightarrow> int \<Rightarrow> int \<Rightarrow> 'a list" where
  "py_slice xs a b =
     (let n = int (length xs); lo = slice_index a n; hi = slice_index b n
      in take (hi - lo) (drop lo xs))"

definition apply_crop :: "'px image \<Rightarrow> crop_strategy \<Rightarrow> 'px image option" where
  "apply_crop img crop_params =
     (let h = int (height img); w = int (width img);
          start_y = int_trunc (real_of_int h * crop_top crop_params);
          end_y = h - int_trunc (real_of_int h * crop_bottom crop_params);
          start_x = int_trunc (real_of_int w * crop_left crop_params);
          end_x = w - int_trunc (real_of_int w * crop_right crop_params)
      in if end_y \<le> start_y \<or> end_x \<le> start_x then None
         else if end_y - start_y < 50 \<or> end_x - start_x < 50 then None
         else Some (map (\<lambda>row. py_slice row start_x end_x) (py_slice img start_y end_y)))"

definition has_order_id :: "string \<Rightarrow> bool" where
  "has_order_id text = re_search False ORDER_ID_PATTERN text"

text \<open>
  \<^verbatim>\<open>conf + 100 if self._has_order_id(text) else conf\<close>.  The sum of the two Python floats
  is taken over the reals; rounding to the nearest float keeps the order of sums but can
  make two close sums equal, so the theorems below compare scores only where the
  comparison survives rounding.
\<close>

definition candidate_score :: "string \<Rightarrow> real \<Rightarrow> real" where
  "candidate_score text conf = (if has_order_id text then conf + 100 else conf)"

text \<open>
  The local variables of \<^verbatim>\<open>find_best_crop\<close>.  \<open>ocr_inputs\<close> is not a variable of the
  source: it records, in order, the images that \<^verbatim>\<open>ocr_function\<close> has been called on.
\<close>

record ('px, 'proc) crop_search =
  best_color :: "'px image"
  best_text :: string
  best_conf :: real
  best_processed :: 'proc
  best_crop_name :: string
  best_crop_params :: "crop_strategy option"
  score :: real
  ocr_inputs :: "'px image list"

text \<open>The loop over \<^verbatim>\<open>self.crop_strategies\<close>; returning the state is the \<^verbatim>\<open>break\<close>.\<close>

fun crop_loop ::
  "'px image \<Rightarrow> ('px image \<Rightarrow> string \<times> real \<times> 'proc) \<Rightarrow> real \<Rightarrow> crop_strategy list \<Rightarrow>
   ('px, 'proc) crop_search \<Rightarrow> ('px, 'proc) crop_search" where
  "crop_loop img ocr_function threshold_confidence [] st = st"
| "crop_loop img ocr_function threshold_confidence (crop_dict # rest) st =
     (case apply_crop img crop_dict of
        None \<Rightarrow> crop_loop img ocr_function threshold_confidence rest st
      | Some cropped \<Rightarrow>
          (case ocr_function cropped of (text, conf, processed) \<Rightarrow>
             (let crop_score = candidate_score text conf;
                  st1 = st\<lparr>ocr_inputs := ocr_inputs st @ [cropped]\<rparr>
              in if crop_score > score st
                 then (let st2 = st1\<lparr>score := crop_score, best_text := text, best_conf := conf,
                                      best_color := cropped, best_processed := processed,
                                      best_crop_name := crop_name crop_dict,
                                      best_crop_params := Some crop_dict\<rparr>
                       in if conf \<ge> threshold_confidence \<and> has_order_id text then st2
                          else crop_loop img ocr_function threshold_confidence rest st2)
                 else crop_loop img ocr_function threshold_confidence rest st1)))"

definition full_image_state ::
  "'px image \<Rightarrow> ('px image \<Rightarrow> string \<times> real \<times> 'proc) \<Rightarrow> ('px, 'proc) crop_search" where
  "full_image_state img ocr_function =
     (case ocr_function img of (text, conf, processed) \<Rightarrow>
        \<lparr>best_color = img, best_text = text, best_conf = conf, best_processed = processed,
         best_crop_name = ''Full Image'', best_crop_params = None,
         score = candidate_score text conf, ocr_inputs = [img]\<rparr>)"

definition find_best_crop ::
  "extractor_config \<Rightarrow> 'px image \<Rightarrow> ('px image \<Rightarrow> string \<times> real \<times> 'proc) \<Rightarrow> real \<Rightarrow>
   ('px, 'proc) crop_search" where
  "find_best_crop cfg img ocr_function threshold_confidence =
     (let st = full_image_state img ocr_function
      in if best_conf st \<ge> threshold_confidence \<and> has_order_id (best_text st) then st
         else crop_loop img ocr_function threshold_confidence (crop_strategies cfg) st)"

text \<open>The tuple that \<^verbatim>\<open>find_best_crop\<close> returns.\<close>

definition returned ::
  "('px, 'proc) crop_search \<Rightarrow> 'px image \<times> string \<times> real \<times> 'proc \<times> crop_strategy option" where
  "returned st = (best_color st, best_text st, best_conf st, best_processed st, best_crop_params st)"

section \<open>Duplicate consolidation (analytics.py)\<close>

text \<open>
  A row of the DataFrame that \<^verbatim>\<open>pd.DataFrame(results)\<close> builds from the result dicts.  A
  cell whose key the dict lacks is NaN, here \<open>None\<close>; a column exists when some row has
  the key.  \<open>order_ids_cell\<close> is the column \<^verbatim>\<open>Order IDs\<close>, the order ids joined by
  \<^verbatim>\<open>" | "\<close>, and \<open>confidence_cell\<close> the column \<^verbatim>\<open>Tesseract Confidence (%)\<close>.  The other
  columns are the extension of the record.
\<close>

record row =
  file_name :: string
  order_ids_cell :: "string option"
  confidence_cell :: "real option"
  is_duplicate :: "bool option"

definition has_column :: "('r \<Rightarrow> 'c option) \<Rightarrow> 'r list \<Rightarrow> bool" where
  "has_column col df = list_ex (\<lambda>r. col r \<noteq> None) df"

text \<open>\<^verbatim>\<open>df['Order IDs'].str.split('|').str[0]\<close>; NaN stays NaN.\<close>

definition first_order_id :: "'a row_scheme \<Rightarrow> string option" where
  "first_order_id r =
     (case order_ids_cell r of
        None \<Rightarrow> None
      | Some s \<Rightarrow> (case split_char (CHR ''|'') s of [] \<Rightarrow> None | x # _ \<Rightarrow> Some x))"

text \<open>
  \<^verbatim>\<open>df.groupby('_first_order_id')\<close> with the defaults of pandas: the rows whose key is NaN
  are left out, the groups come in the sorted order of their keys, and the rows of a
  group keep their order.
\<close>

definition group_keys :: "'a row_scheme list \<Rightarrow> string list" where
  "group_keys df = sort (remdups (List.map_filter first_order_id df))"

definition groupby :: "'a row_scheme list \<Rightarrow> 'a row_scheme list list" where
  "groupby df = map (\<lambda>key. filter (\<lambda>r. first_order_id r = Some key) df) (group_keys df)"

text \<open>\<^verbatim>\<open>Series.idxmax()\<close>: the position of the first greatest value, NaN skipped; no
  position when every value is NaN (then \<^verbatim>\<open>group.loc\<close> raises).\<close>

fun idxmax_loop :: "real option list \<Rightarrow> nat \<Rightarrow> (nat \<times> real) option \<Rightarrow> nat option" where
  "idxmax_loop [] i best = map_option fst best"
| "idxmax_loop (None # cs) i best = idxmax_loop cs (Suc i) best"
| "idxmax_loop (Some c # cs) i best =
     idxmax_loop cs (Suc i)
       (case best of None \<Rightarrow> Some (i, c)
        | Some (j, m) \<Rightarrow> if c > m then Some (i, c) else Some (j, m))"

definition idxmax :: "real option list \<Rightarrow> nat option" where
  "idxmax cs = idxmax_loop cs 0 None"

text \<open>The loop of \<^verbatim>\<open>merge_duplicates\<close> over the groups, appending to \<^verbatim>\<open>merged_rows\<close>.\<close>

fun merge_groups ::
  "bool \<Rightarrow> 'a row_scheme list list \<Rightarrow> 'a row_scheme list \<Rightarrow> py_error + 'a row_scheme list" where
  "merge_groups has_conf [] merged_rows = Inr merged_rows"
| "merge_groups has_conf ([] # gs) merged_rows = merge_groups has_conf gs merged_rows"
| "merge_groups has_conf ([r] # gs) merged_rows = merge_groups has_conf gs (merged_rows @ [r])"
| "merge_groups has_conf ((r # r' # rs) # gs) merged_rows =
     (let group = r # r' # rs
      in case (if has_conf
               then (case idxmax (map confidence_cell group) of
                       None \<Rightarrow> Inl KeyError
                     | Some i \<Rightarrow> Inr (group ! i))
               else Inr r) of
           Inl e \<Rightarrow> Inl e
         | Inr best_row \<Rightarrow>
             merge_groups has_conf gs
               (merged_rows @ [best_row\<lparr>file_name := join '' + '' (map file_name group),
                                         is_duplicate := Some True\<rparr>]))"

definition merge_duplicates :: "'a row_scheme list \<Rightarrow> py_error + 'a row_scheme list" where
  "merge_duplicates df =
     (if \<not> has_column order_ids_cell df then Inr df
      else merge_groups (has_column confidence_cell df) (groupby df) [])"

text \<open>The row that \<^verbatim>\<open>process_single_file\<close> produces for a processed image.\<close>

definition result_row :: "string \<Rightarrow> string list \<Rightarrow> real \<Rightarrow> row" where
  "result_row fname order_ids ocr_conf =
     \<lparr>file_name = fname, order_ids_cell = Some (join '' | '' order_ids),
      confidence_cell = Some ocr_conf, is_duplicate = None\<rparr>"

section \<open>The amended confidence formula and example data\<close>

text \<open>
  An order id followed by one newline, which \<open>validate_order_id\<close> accepts because \<^verbatim>\<open>$\<close>
  also matches just before a final newline; and the shape that the order-id pattern
  matches at the start of a string.
\<close>

definition newline_padded_id :: "string \<Rightarrow> bool" where
  "newline_padded_id s = (s \<noteq> [] \<and> last s = CHR 0x0A \<and> exact_order_id (butlast s))"

definition id_shape :: "string \<Rightarrow> bool" where
  "id_shape s =
     (19 \<le> length s \<and> list_all isdigit (take 3 s) \<and> s ! 3 = CHR ''-'' \<and>
      list_all isdigit (take 7 (drop 4 s)) \<and> s ! 11 = CHR ''-'' \<and>
      list_all isdigit (take 7 (drop 12 s)))"

definition first_id_unpadded :: "fieldset \<Rightarrow> bool" where
  "first_id_unpadded d =
     (case get_or_empty d ''order_ids'' of [] \<Rightarrow> True
      | first_id # _ \<Rightarrow> \<not> newline_padded_id first_id)"

text \<open>
  The sum of the field bonuses of the amended confidence formula: 25 when the first
  order id is exactly of the canonical form, 5 per item up to 20, 10 for a total, 5 for
  a date.
\<close>

definition field_bonus :: "fieldset \<Rightarrow> real" where
  "field_bonus d =
     (case get_or_empty d ''order_ids'' of [] \<Rightarrow> 0
      | first_id # _ \<Rightarrow> if exact_order_id first_id then 25 else 0)
     + (if get_or_empty d ''items'' \<noteq> []
        then min (5 * real (length (get_or_empty d ''items''))) 20 else 0)
     + (if get_or_empty d ''totals'' \<noteq> [] then 10 else 0)
     + (if get_or_empty d ''dates'' \<noteq> [] then 5 else 0)"

definition sample_fields :: fieldset where
  "sample_fields =
     [(''order_ids'', [''123-4567890-1234567'']), (''prices'', []), (''dates'', [''2024-01-05'']),
      (''totals'', [''$10.00'']), (''quantities'', []), (''sellers'', []),
      (''tracking_numbers'', []),
      (''items'', [''A'', ''B'', ''C'', ''D'', ''E''])]"

definition second_id_fields :: fieldset where
  "second_id_fields =
     [(''order_ids'', [''n/a'', ''123-4567890-1234567'']), (''prices'', []), (''dates'', []),
      (''totals'', []), (''quantities'', []), (''sellers'', []),
      (''tracking_numbers'', []), (''items'', [])]"

definition id_text :: string where
  "id_text = ''Order 123-4567890-1234567''"

definition plain_text :: string where
  "plain_text = ''Thank you for shopping''"

definition hybrid_config :: extractor_config where
  "hybrid_config = default_config\<lparr>ai_mode := ''hybrid''\<rparr>"

definition local_fields :: fieldset where
  "local_fields =
     [(''order_ids'', [''A'']), (''prices'', []), (''dates'', []), (''totals'', []),
      (''quantities'', []), (''sellers'', []), (''tracking_numbers'', []), (''items'', [])]"

definition ai_fields :: fieldset where
  "ai_fields =
     [(''order_ids'', []), (''prices'', []), (''dates'', []), (''totals'', []),
      (''quantities'', []), (''sellers'', []), (''tracking_numbers'', []),
      (''items'', [''Widget''])]"

text \<open>
  The test that the first loop of \<^verbatim>\<open>extract_items\<close> applies to a cleaned line, and the
  list of the first occurrences of the elements of a list, in their order.
\<close>

definition keep_item :: "string \<Rightarrow> bool" where
  "keep_item clean =
     (15 \<le> length clean \<and> isupper (hd clean) \<and>
      (\<forall>keyword \<in> set skip_keywords. \<not> contains keyword (lower clean)))"

definition first_seen :: "'a list \<Rightarrow> 'a list" where
  "first_seen xs = rev (remdups (rev xs))"

definition order_page :: string where
  "order_page =
     ''Blue Widget 2pk $12.99'' @ [CHR 0x0A] @
     ''  Stainless Steel Water Bottle 111-2222222-3333333 x'' @ [CHR 0x0A] @
     ''Order Total: $12.99'' @ [CHR 0x0A] @
     ''Blue Widget 2pk''"

definition sample_runtime :: py_runtime where
  "sample_runtime = \<lparr>list_of_set = remdups, strptime_strftime = (\<lambda>s. None)\<rparr>"

fun sample_str :: "json \<Rightarrow> string" where
  "sample_str (JStr s) = s"
| "sample_str (JInt i) = (if i = 2 then ''2'' else ''0'')"
| "sample_str _ = []"

definition sample_response :: json where
  "sample_response =
     JObj [(''order_id'', JStr ''123-4567890-1234567''), (''order_date'', JNull),
           (''items'', JArr [JObj [(''name'', JStr ''Widget''), (''quantity'', JInt 2),
                                   (''price'', JStr ''$5.00'')], JStr ''stray'']),
           (''other_prices'', JArr [JStr ''$1.00'', JNull])]"

definition sample_normalized :: fieldset where
  "sample_normalized =
     [(''order_ids'', [''123-4567890-1234567'']), (''prices'', [''$5.00'', ''$1.00'']),
      (''dates'', []), (''totals'', []), (''quantities'', [''2'']), (''sellers'', []),
      (''tracking_numbers'', []), (''items'', [''Widget''])]"

text \<open>The score of the candidate that \<^verbatim>\<open>ocr_function\<close> returns for an image.\<close>

definition recognised_score :: "('px image \<Rightarrow> string \<times> real \<times> 'proc) \<Rightarrow> 'px image \<Rightarrow> real" where
  "recognised_score ocr_function cropped =
     (case ocr_function cropped of (text, conf, processed) \<Rightarrow> candidate_score text conf)"

text \<open>Two properties of the loop state: the running score is the score of the current
  best candidate, and the current best candidate meets the early-exit condition.\<close>

definition consistent :: "('px, 'proc) crop_search \<Rightarrow> bool" where
  "consistent st = (score st = candidate_score (best_text st) (best_conf st))"

definition exits :: "real \<Rightarrow> ('px, 'proc) crop_search \<Rightarrow> bool" where
  "exits thr st = (best_conf st \<ge> thr \<and> has_order_id (best_text st))"

text \<open>A 100 by 100 image, its crop by the first default strategy, recognition functions,
  an engine and rows used as concrete inputs.\<close>

definition blank_image :: "unit image" where
  "blank_image = replicate 100 (replicate 100 ())"

definition no_bottom_crop :: "unit image" where
  "no_bottom_crop = replicate 80 (replicate 100 ())"

definition ocr_full_has_id :: "unit image \<Rightarrow> string \<times> real \<times> nat" where
  "ocr_full_has_id im = (if length im = 100 then (id_text, 60, 0) else (plain_text, 95, 1))"

definition ocr_crop_has_id :: "unit image \<Rightarrow> string \<times> real \<times> nat" where
  "ocr_crop_has_id im = (if length im = 100 then (plain_text, 50, 0) else (id_text, 90, 1))"

definition ocr_confident :: "unit image \<Rightarrow> string \<times> real \<times> nat" where
  "ocr_confident im = (id_text, 90, 0)"

definition ocr_low_with_id :: "unit image \<Rightarrow> string \<times> real \<times> nat" where
  "ocr_low_with_id im = (id_text, 50, 0)"

definition stub_backend :: "(nat, nat) ocr_backend" where
  "stub_backend =
     \<lparr>binarize = (\<lambda>i. i), bitwise_not = (\<lambda>b. b + 1),
      image_to_data_conf = (\<lambda>b. Inr (if b = 0 then [PyInt (- 1), PyInt 91] else [PyInt 50])),
      image_to_string = (\<lambda>b. Inr (if b = 0 then ''normal'' else ''inverted'')),
      int_of_str = (\<lambda>s. None)\<rparr>"

definition failed_row :: "string \<Rightarrow> row" where
  "failed_row fname =
     \<lparr>file_name = fname, order_ids_cell = None, confidence_cell = None, is_duplicate = None\<rparr>"

section \<open>Theorems\<close>

subsection \<open>Dictionaries and sample texts\<close>

lemma get_truthy_iff: "get_truthy d k \<longleftrightarrow> get_or_empty d k \<noteq> []"
  by (simp add: get_truthy_def get_or_empty_def split: option.splits)

lemma has_id_text: "has_order_id id_text"
  unfolding id_text_def has_order_id_def by code_simp

lemma no_id_plain_text: "\<not> has_order_id plain_text"
  unfolding plain_text_def has_order_id_def by code_simp

lemma exact_sample_id: "exact_order_id ''123-4567890-1234567''"
  by code_simp

subsection \<open>The order-id pattern\<close>

text \<open>
  What the matcher computes for the pattern of \<open>validate_order_id\<close>: the string is an
  exact order id, or an exact order id followed by one newline.
\<close>

lemma matches_digits:
  "matches False (Rep n (Some n) (Cls isdigit)) (s, g) =
     (if n \<le> length s \<and> list_all isdigit (take n s) then [(drop n s, g)] else [])"
proof (induction n arbitrary: s)
  case 0
  show ?case by (subst matches.simps(8)) simp
next
  case (Suc n)
  show ?case
  proof (cases s)
    case Nil
    show ?thesis unfolding Nil by (subst matches.simps(8)) simp
  next
    case (Cons x xs)
    show ?thesis
      unfolding Cons
      by (subst matches.simps(8)) (simp del: matches.simps(8) add: Suc.IH [of xs])
  qed
qed

lemma digits_then:
  "concat (map f (matches False (Rep k (Some k) (Cls isdigit)) (drop n s, g))) =
     (if k \<le> length s - n \<and> list_all isdigit (take k (drop n s))
      then f (drop (n + k) s, g) else [])"
  by (auto simp del: matches.simps(8) simp add: matches_digits add.commute)

lemma lit_then:
  "concat (map f (matches False (Lit c) (drop n s, g))) =
     (if n < length s \<and> s ! n = c then f (drop (Suc n) s, g) else [])"
proof (cases "n < length s")
  case True
  then have "drop n s = s ! n # drop (Suc n) s"
    by (simp add: Cons_nth_drop_Suc)
  then show ?thesis using True by simp
next
  case False
  then show ?thesis by simp
qed

lemma matches_order_id:
  "matches False ORDER_ID_PATTERN (s, g) =
     (if 19 \<le> length s \<and> list_all isdigit (take 3 s) \<and> s ! 3 = CHR ''-'' \<and>
         list_all isdigit (take 7 (drop 4 s)) \<and> s ! 11 = CHR ''-'' \<and>
         list_all isdigit (take 7 (drop 12 s))
      then [(drop 19 s, g)] else [])"
proof -
  have p: "ORDER_ID_PATTERN =
     Seq (Rep 3 (Some 3) (Cls isdigit))
          (Seq (Lit (CHR ''-''))
           (Seq (Rep 7 (Some 7) (Cls isdigit))
            (Seq (Lit (CHR ''-''))
             (Seq (Rep 7 (Some 7) (Cls isdigit)) Eps))))"
    by (simp add: ORDER_ID_PATTERN_def seqs_def exactly_def digit_def)
  have "matches False ORDER_ID_PATTERN (drop 0 s, g) =
     (if 19 \<le> length s \<and> list_all isdigit (take 3 s) \<and> s ! 3 = CHR ''-'' \<and>
         list_all isdigit (take 7 (drop 4 s)) \<and> s ! 11 = CHR ''-'' \<and>
         list_all isdigit (take 7 (drop 12 s))
      then [(drop 19 s, g)] else [])"
    unfolding p matches.simps(6) digits_then lit_then matches.simps(1)
    by (auto simp del: matches.simps)
  then show ?thesis by simp
qed

lemma validate_order_id_shape:
  "validate_order_id s \<longleftrightarrow> id_shape s \<and> (drop 19 s = [] \<or> drop 19 s = [CHR 0x0A])"
proof -
  have m: "matches False VALID_ORDER_ID_PATTERN (s, None) =
             concat (map (matches False Eol) (matches False ORDER_ID_PATTERN (s, None)))"
    unfolding VALID_ORDER_ID_PATTERN_def by (rule matches.simps(6))
  have mo: "matches False ORDER_ID_PATTERN (s, None) =
              (if id_shape s then [(drop 19 s, None)] else [])"
    unfolding matches_order_id id_shape_def ..
  show ?thesis
  proof (cases "id_shape s")
    case True
    then have ne: "s \<noteq> []" by (auto simp: id_shape_def)
    show ?thesis
      unfolding validate_order_id_def re_match_def match_at_def m mo
      using True ne by (simp del: matches.simps(8))
  next
    case False
    show ?thesis
      unfolding validate_order_id_def re_match_def match_at_def m mo
      using False by (simp del: matches.simps(8))
  qed
qed

lemma exact_order_id_shape: "exact_order_id s \<longleftrightarrow> id_shape s \<and> drop 19 s = []"
  unfolding exact_order_id_def id_shape_def by (cases "length s = 19") auto

lemma exact_take19:
  assumes "length s = 20"
  shows "exact_order_id (take 19 s) \<longleftrightarrow> id_shape s"
  using assms unfolding exact_order_id_def id_shape_def by (simp add: drop_take)

lemma newline_padded_shape: "newline_padded_id s \<longleftrightarrow> id_shape s \<and> drop 19 s = [CHR 0x0A]"
proof (cases "length s = 20")
  case True
  have b: "butlast s = take 19 s" using True by (simp add: butlast_conv_take)
  have ne: "s \<noteq> []" using True by auto
  have "s = take 19 s @ drop 19 s" by simp
  moreover have "length (drop 19 s) = 1" using True by simp
  then obtain x where x: "drop 19 s = [x]"
    by (cases "drop 19 s") auto
  ultimately have s: "s = take 19 s @ [x]" by simp
  have "last s = x" by (subst s) simp
  then show ?thesis
    unfolding newline_padded_id_def b exact_take19 [OF True] using ne x by auto
next
  case False
  have a: "\<not> newline_padded_id s"
  proof
    assume "newline_padded_id s"
    then have "s \<noteq> []" "length (butlast s) = 19"
      by (auto simp: newline_padded_id_def exact_order_id_def)
    then have "length s = 20" by simp
    with False show False by simp
  qed
  have b: "drop 19 s \<noteq> [CHR 0x0A]"
  proof
    assume "drop 19 s = [CHR 0x0A]"
    then have "length (drop 19 s) = 1" by simp
    then have "length s = 20" by simp
    with False show False by simp
  qed
  show ?thesis using a b by simp
qed

lemma validate_order_id_iff:
  "validate_order_id s \<longleftrightarrow> exact_order_id s \<or> newline_padded_id s"
  using validate_order_id_shape exact_order_id_shape newline_padded_shape by blast

lemma validate_accepts_trailing_newline:
  "validate_order_id (''123-4567890-1234567'' @ [CHR 0x0A]) \<and>
   \<not> exact_order_id (''123-4567890-1234567'' @ [CHR 0x0A])"
  by code_simp

subsection \<open>Confidence score\<close>

lemma field_bonus_nonneg: "0 \<le> field_bonus d"
  by (simp add: field_bonus_def split: list.splits)

lemma calculate_confidence_eq:
  assumes "first_id_unpadded d"
  shows "calculate_confidence d c = min (0.4 * c + field_bonus d) 100"
proof (cases "get_or_empty d ''order_ids''")
  case Nil
  then show ?thesis
    by (simp add: calculate_confidence_def field_bonus_def get_truthy_iff Let_def min_def)
next
  case (Cons first_id rest)
  then have "\<not> newline_padded_id first_id"
    using assms by (simp add: first_id_unpadded_def)
  then have v: "validate_order_id first_id = exact_order_id first_id"
    by (simp add: validate_order_id_iff)
  show ?thesis
    using Cons v
    by (simp add: calculate_confidence_def field_bonus_def get_truthy_iff Let_def min_def)
qed

lemma field_bonus_sample: "field_bonus sample_fields = 60"
  using exact_sample_id by (simp add: field_bonus_def sample_fields_def get_or_empty_def)

lemma sample_unpadded: "first_id_unpadded sample_fields"
  unfolding first_id_unpadded_def sample_fields_def get_or_empty_def by code_simp

text \<open>
  Claim C1, amended.  For every extracted-data mapping whose first order id is not an
  order id followed by a newline, and every ocr confidence, \<open>calculate_confidence\<close>
  returns 0.4 times the ocr confidence, plus 25 if the first element of \<open>order_ids\<close>
  matches the canonical digit-dash pattern exactly, plus 5 per item up to 20 if there
  are items, plus 10 if there is a total, plus 5 if there is a date, capped at 100; the
  result is at most 100, is at least 0 when the ocr confidence is, is monotonic in the
  ocr confidence, and is exactly 100 whenever the raw sum exceeds 100.
\<close>

theorem calculate_confidence_formula:
  assumes "first_id_unpadded d"
  shows "calculate_confidence d c = min (0.4 * c + field_bonus d) 100 \<and>
         (0 \<le> c \<longrightarrow> 0 \<le> calculate_confidence d c) \<and> calculate_confidence d c \<le> 100 \<and>
         (\<forall>c'. c \<le> c' \<longrightarrow> calculate_confidence d c \<le> calculate_confidence d c') \<and>
         (0.4 * c + field_bonus d > 100 \<longrightarrow> calculate_confidence d c = 100)"
proof -
  have nn: "0 \<le> field_bonus d" by (rule field_bonus_nonneg)
  have range: "0 \<le> c \<longrightarrow> 0 \<le> min (0.4 * c + field_bonus d) 100"
    using nn by simp
  have mono: "\<forall>c'. c \<le> c' \<longrightarrow>
                min (0.4 * c + field_bonus d) 100 \<le> min (0.4 * c' + field_bonus d) 100"
    by (simp add: min_def)
  show ?thesis
    using range mono by (simp add: calculate_confidence_eq [OF assms])
qed

theorem calculate_confidence_formula_witness:
  "first_id_unpadded sample_fields \<and>
   0.4 * 150 + field_bonus sample_fields = 120 \<and>
   calculate_confidence sample_fields 150 = 100 \<and>
   calculate_confidence sample_fields 100 = 100 \<and>
   calculate_confidence sample_fields 50 = 80 \<and>
   calculate_confidence sample_fields 50 \<le> calculate_confidence sample_fields 100"
  using calculate_confidence_formula [of sample_fields 150]
        calculate_confidence_formula [of sample_fields 100]
        calculate_confidence_formula [of sample_fields 50]
        field_bonus_sample sample_unpadded
  by simp

text \<open>
  The claim as stated grants the bonus for a valid order id anywhere in \<open>order_ids\<close>;
  the code looks at the first element only.
\<close>

theorem calculate_confidence_counterexample:
  "calculate_confidence second_id_fields 50 = 20 \<and>
   calculate_confidence_spec second_id_fields 50 = 45"
proof -
  have a: "\<not> validate_order_id ''n/a''" by code_simp
  have b: "exact_order_id ''123-4567890-1234567''" by code_simp
  have c: "\<not> exact_order_id ''n/a''" by code_simp
  show ?thesis
    using a b c
    by (simp add: calculate_confidence_def calculate_confidence_spec_def second_id_fields_def
        get_truthy_def get_or_empty_def)
qed

subsection \<open>Escalation policy\<close>

text \<open>
  Claim C8.  \<open>should_use_ai\<close> is false for every input in mode never, true for every
  input in mode always, and in mode hybrid true exactly when the ocr confidence is below
  the configured threshold, or \<open>order_ids\<close> is empty, or \<open>items\<close> is empty; nothing else
  enters the decision.
\<close>

theorem should_use_ai_policy:
  "(ai_mode cfg = ''never'' \<longrightarrow> \<not> should_use_ai cfg extracted c) \<and>
   (ai_mode cfg = ''always'' \<longrightarrow> should_use_ai cfg extracted c) \<and>
   (ai_mode cfg = ''hybrid'' \<longrightarrow>
      should_use_ai cfg extracted c =
        (c < tesseract_confidence_threshold cfg \<or>
         get_or_empty extracted ''order_ids'' = [] \<or>
         get_or_empty extracted ''items'' = []))"
  by (auto simp: should_use_ai_def get_truthy_def get_or_empty_def split: option.splits)

theorem should_use_ai_policy_witness:
  "\<not> should_use_ai default_config ai_fields 10 \<and>
   should_use_ai (default_config\<lparr>ai_mode := ''always''\<rparr>) ai_fields 99 \<and>
   tesseract_confidence_threshold hybrid_config = 70 \<and>
   \<not> should_use_ai hybrid_config (merge_results local_fields ai_fields) 80 \<and>
   should_use_ai hybrid_config local_fields 80"
  using should_use_ai_policy [of default_config ai_fields 10]
        should_use_ai_policy [of "default_config\<lparr>ai_mode := ''always''\<rparr>" ai_fields 99]
        should_use_ai_policy [of hybrid_config "merge_results local_fields ai_fields" 80]
        should_use_ai_policy [of hybrid_config local_fields 80]
  by (simp add: default_config_def hybrid_config_def local_fields_def ai_fields_def
      get_or_empty_def merge_results_def keys_def Let_def)

subsection \<open>Merge\<close>

lemma map_of_merge_loop:
  "map_of (merge_loop ks ocr_data ai_data merged) k =
     (if k \<in> set ks
      then Some (if get_or_empty ai_data k \<noteq> [] then get_or_empty ai_data k
                 else get_or_empty ocr_data k)
      else map_of merged k)"
  by (induction ks arbitrary: merged) (auto simp: Let_def update_conv')

text \<open>
  Claim C6.  For every local and AI field set and every key of the local field set (for
  a FieldSet: each of the eight field keys), the merged value is the AI list when that
  is non-empty and the local list otherwise (hence empty when both are); an empty AI
  list never erases a local list, and the two lists are never combined.
\<close>

theorem merge_results_per_key:
  assumes "k \<in> set (keys local_data)"
  shows "map_of (merge_results local_data ai_data) k =
           Some (if get_or_empty ai_data k \<noteq> [] then get_or_empty ai_data k
                 else get_or_empty local_data k)"
  using assms by (simp add: merge_results_def map_of_merge_loop)

theorem merge_results_per_key_witness:
  "''order_ids'' \<in> set (keys local_fields) \<and> ''items'' \<in> set (keys local_fields) \<and>
   map_of (merge_results local_fields ai_fields) ''order_ids'' = Some [''A''] \<and>
   map_of (merge_results local_fields ai_fields) ''items'' = Some [''Widget'']"
  using merge_results_per_key [of "''order_ids''" local_fields ai_fields]
        merge_results_per_key [of "''items''" local_fields ai_fields]
  by (simp add: local_fields_def ai_fields_def keys_def get_or_empty_def)

subsection \<open>Crop-search score\<close>




subsection \<open>The eight keys\<close>

lemma keys_dict_extend:
  "key \<in> set (keys d) \<Longrightarrow> keys (dict_extend d key vs) = keys d"
  by (simp add: dict_extend_def keys_def update_keys)

lemma keys_append_if_present:
  "dst \<in> set (keys d) \<Longrightarrow> keys (append_if_present str_of data src dst d) = keys d"
  by (simp add: append_if_present_def dict_append_def keys_dict_extend split: option.splits)

lemma keys_append_field:
  "keys d = field_keys \<Longrightarrow> dst \<in> set field_keys \<Longrightarrow>
   keys (append_if_present str_of data src dst d) = field_keys"
  using keys_append_if_present [of dst d str_of data src] by simp

lemma keys_normalize_items:
  "keys d = field_keys \<Longrightarrow> keys (normalize_items str_of items d) = field_keys"
proof (induction str_of items d rule: normalize_items.induct)
  case (2 str_of item "is" result)
  have "keys (append_if_present str_of item ''price'' ''prices''
         (append_if_present str_of item ''quantity'' ''quantities''
           (append_if_present str_of item ''name'' ''items'' result))) = field_keys"
    by (intro keys_append_field "2.prems") (simp_all add: field_keys_def)
  then show ?case using "2.IH" by simp
qed simp_all

lemma keys_empty_fieldset: "keys empty_fieldset = field_keys"
  by (simp add: keys_def empty_fieldset_def field_keys_def)

lemma normalize_object:
  "\<exists>fs. normalize_to_lists str_of (JObj data) = Inr fs \<and> keys fs = field_keys"
proof -
  let ?r5 = "append_if_present str_of data ''tracking_number'' ''tracking_numbers''
              (append_if_present str_of data ''seller'' ''sellers''
                (append_if_present str_of data ''total'' ''totals''
                  (append_if_present str_of data ''order_date'' ''dates''
                    (append_if_present str_of data ''order_id'' ''order_ids'' empty_fieldset))))"
  have k5: "keys ?r5 = field_keys"
    by (intro keys_append_field keys_empty_fieldset) (simp_all add: field_keys_def)
  let ?r6 = "(case map_of data ''items'' of
                Some (JArr items_data) \<Rightarrow> normalize_items str_of items_data ?r5
              | _ \<Rightarrow> ?r5)"
  have k6: "keys ?r6 = field_keys"
    using k5 by (auto simp: keys_normalize_items split: option.splits json.splits)
  let ?r7 = "(case map_of data ''other_prices'' of
                Some (JArr other_prices) \<Rightarrow>
                  dict_extend ?r6 ''prices'' (map str_of (filter truthy other_prices))
              | _ \<Rightarrow> ?r6)"
  have p: "''prices'' \<in> set (keys ?r6)"
    unfolding k6 by (simp add: field_keys_def)
  have k7: "keys ?r7 = field_keys"
    using k6 keys_dict_extend [OF p] by (simp split: option.splits json.splits)
  have "normalize_to_lists str_of (JObj data) = Inr ?r7"
    by (simp add: normalize_to_lists_def Let_def)
  with k7 show ?thesis by blast
qed

text \<open>
  Claim C9.  For every text, \<open>extract_all\<close> returns a mapping whose keys are exactly
  the eight field keys, each bound to a list; \<open>normalize_to_lists\<close> returns such a
  mapping for every parsed response that is a JSON object, and whatever it returns has
  exactly the eight keys.
\<close>

theorem eight_keys_invariant:
  "keys (extract_all rt text) = field_keys \<and>
   length field_keys = 8 \<and> distinct field_keys \<and>
   (\<exists>fs. normalize_to_lists str_of (JObj data) = Inr fs \<and> keys fs = field_keys) \<and>
   (\<forall>fs. normalize_to_lists str_of response = Inr fs \<longrightarrow> keys fs = field_keys)"
proof -
  have a: "keys (extract_all rt text) = field_keys"
    by (simp add: extract_all_def keys_def field_keys_def)
  have b: "length field_keys = 8 \<and> distinct field_keys"
    by (simp add: field_keys_def)
  have c: "\<forall>fs. normalize_to_lists str_of response = Inr fs \<longrightarrow> keys fs = field_keys"
  proof (cases response)
    case (JObj kvs)
    then show ?thesis using normalize_object [of str_of kvs] by auto
  qed (simp_all add: normalize_to_lists_def)
  show ?thesis using a b c normalize_object by blast
qed

lemma normalize_sample:
  "normalize_to_lists sample_str sample_response = Inr sample_normalized"
  by (simp add: normalize_to_lists_def sample_response_def sample_normalized_def
      append_if_present_def json_get_truthy_def dict_append_def dict_extend_def
      empty_fieldset_def get_or_empty_def Let_def)

theorem eight_keys_invariant_witness:
  "normalize_to_lists sample_str sample_response = Inr sample_normalized \<and>
   keys sample_normalized = field_keys \<and>
   keys (extract_all sample_runtime order_page) = field_keys"
  using eight_keys_invariant [of sample_runtime order_page sample_str "[]" sample_response]
        normalize_sample
  by simp

subsection \<open>Item lines\<close>

lemma items_loop_eq:
  "items_loop ls items = items @ filter keep_item (map clean_line ls)"
proof (induction ls arbitrary: items)
  case Nil
  then show ?case by simp
next
  case (Cons line ls)
  have ne: "15 \<le> length (clean_line line) \<Longrightarrow> clean_line line \<noteq> []"
    by auto
  show ?case
    using ne by (auto simp: Cons.IH Let_def keep_item_def list_ex_iff)
qed

lemma first_seen_distinct: "distinct acc \<Longrightarrow> first_seen acc = acc"
  by (simp add: first_seen_def distinct_remdups_id)

lemma first_seen_drop_seen:
  assumes "x \<in> set acc"
  shows "first_seen (acc @ x # xs) = first_seen (acc @ xs)"
proof -
  have d: "remdups (x # rev acc) = remdups (rev acc)"
    using assms by simp
  have "remdups (rev xs @ (x # rev acc)) = remdups (rev xs @ remdups (x # rev acc))"
    by (simp only: remdups_append2)
  also have "\<dots> = remdups (rev xs @ remdups (rev acc))"
    by (simp only: d)
  also have "\<dots> = remdups (rev xs @ rev acc)"
    by (simp only: remdups_append2)
  finally show ?thesis by (simp add: first_seen_def)
qed

lemma unique_loop_eq:
  "distinct acc \<Longrightarrow> unique_loop xs (set acc) acc = first_seen (acc @ xs)"
proof (induction xs arbitrary: acc)
  case Nil
  then show ?case by (simp add: first_seen_distinct)
next
  case (Cons x xs)
  show ?case
  proof (cases "x \<in> set acc")
    case True
    then show ?thesis
      using Cons.IH [OF Cons.prems] by (simp add: first_seen_drop_seen)
  next
    case False
    then have d: "distinct (acc @ [x])" using Cons.prems by simp
    have "unique_loop (x # xs) (set acc) acc = unique_loop xs (set (acc @ [x])) (acc @ [x])"
      using False by simp
    also have "\<dots> = first_seen ((acc @ [x]) @ xs)" by (rule Cons.IH [OF d])
    finally show ?thesis by simp
  qed
qed

lemma extract_order_page:
  "extract_items order_page = [''Blue Widget 2pk'', ''Stainless Steel Water Bottle'']"
  unfolding order_page_def by code_simp

lemma keep_blue_widget: "keep_item ''Blue Widget 2pk''"
  unfolding keep_item_def skip_keywords_def by code_simp

text \<open>
  Claim C5, amended.  For every text, \<open>extract_items\<close> returns the cleaned forms (prices
  and order-id-like tails deleted, then stripped) of the stripped non-empty lines whose
  cleaned form has at least 15 characters, starts with an uppercase character, and
  contains, compared in lower case, none of the sixteen stop keywords total, shipping,
  tax, qty, quantity, sold by, order, delivery, arrives, return, refund, customer,
  account, payment, credit, gift; the result is de-duplicated in first-seen order.
\<close>

theorem extract_items_kept_lines:
  "extract_items text = first_seen (filter keep_item (map clean_line (item_lines text))) \<and>
   distinct (extract_items text) \<and>
   set (extract_items text) = {c \<in> clean_line ` set (item_lines text). keep_item c}"
proof -
  have e: "extract_items text = first_seen (filter keep_item (map clean_line (item_lines text)))"
    using unique_loop_eq [of "[]"] by (simp add: extract_items_def items_loop_eq)
  show ?thesis
    unfolding e by (auto simp: first_seen_def)
qed

theorem extract_items_kept_lines_witness:
  "extract_items order_page = [''Blue Widget 2pk'', ''Stainless Steel Water Bottle''] \<and>
   first_seen (filter keep_item (map clean_line (item_lines order_page)))
     = [''Blue Widget 2pk'', ''Stainless Steel Water Bottle''] \<and>
   keep_item ''Blue Widget 2pk'' \<and> length ''Blue Widget 2pk'' = 15"
  using extract_items_kept_lines [of order_page] extract_order_page keep_blue_widget
  by simp

text \<open>
  A line with the keyword account, which the claim's list lacks, is dropped although it
  meets every condition of the claim; a line of exactly 15 characters is returned.
\<close>

theorem extract_items_counterexample:
  "extract_items ''Your Account Settings Page'' = [] \<and>
   clean_line ''Your Account Settings Page'' = ''Your Account Settings Page'' \<and>
   length ''Your Account Settings Page'' > 15 \<and>
   isupper (hd ''Your Account Settings Page'') \<and>
   \<not> list_ex (\<lambda>keyword. contains keyword (lower ''Your Account Settings Page''))
       [''total'', ''shipping'', ''tax'', ''qty'', ''sold by'', ''order'', ''delivery'',
        ''return'', ''refund'', ''customer'', ''payment'', ''credit'', ''gift''] \<and>
   extract_items ''Blue Widget 2pk'' = [''Blue Widget 2pk''] \<and>
   \<not> length ''Blue Widget 2pk'' > 15"
  by code_simp

subsection \<open>Crop search\<close>

lemma crop_loop_consistent:
  "consistent st \<Longrightarrow>
   consistent (crop_loop img ocr thr cs st) \<and> score st \<le> score (crop_loop img ocr thr cs st)"
proof (induction cs arbitrary: st)
  case Nil
  then show ?case by simp
next
  case (Cons c cs)
  show ?case
  proof (cases "apply_crop img c")
    case None
    then show ?thesis using Cons.IH [OF Cons.prems] by simp
  next
    case (Some cropped)
    obtain tx conf processed where o: "ocr cropped = (tx, conf, processed)"
      by (cases "ocr cropped")
    let ?st1 = "st\<lparr>ocr_inputs := ocr_inputs st @ [cropped]\<rparr>"
    let ?st2 = "?st1\<lparr>score := candidate_score tx conf, best_text := tx, best_conf := conf,
                       best_color := cropped, best_processed := processed,
                       best_crop_name := crop_name c, best_crop_params := Some c\<rparr>"
    have c1: "consistent ?st1" using Cons.prems by (simp add: consistent_def)
    have c2: "consistent ?st2" by (simp add: consistent_def)
    show ?thesis
    proof (cases "candidate_score tx conf > score st")
      case True
      then show ?thesis
        using Some o c2 Cons.IH [OF c2] by (auto simp: Let_def)
    next
      case False
      then show ?thesis
        using Some o Cons.IH [OF c1] by (auto simp: Let_def)
    qed
  qed
qed

lemma crop_loop_params_stay:
  "best_crop_params st \<noteq> None \<Longrightarrow> best_crop_params (crop_loop img ocr thr cs st) \<noteq> None"
  by (induction cs arbitrary: st) (auto simp: Let_def split: option.splits prod.splits)

lemma crop_loop_inputs:
  "\<exists>new. ocr_inputs (crop_loop img ocr thr cs st) = ocr_inputs st @ new \<and>
     ((\<forall>c \<in> set new. recognised_score ocr c \<le> score st) \<longrightarrow>
        crop_loop img ocr thr cs st = st\<lparr>ocr_inputs := ocr_inputs st @ new\<rparr>) \<and>
     ((\<exists>c \<in> set new. recognised_score ocr c > score st) \<longrightarrow>
        best_crop_params (crop_loop img ocr thr cs st) \<noteq> None)"
proof (induction cs arbitrary: st)
  case Nil
  show ?case by (rule exI [of _ "[]"]) simp
next
  case (Cons c cs)
  show ?case
  proof (cases "apply_crop img c")
    case None
    then show ?thesis using Cons.IH [of st] by simp
  next
    case (Some cropped)
    obtain tx conf processed where o: "ocr cropped = (tx, conf, processed)"
      by (cases "ocr cropped")
    have rs: "recognised_score ocr cropped = candidate_score tx conf"
      by (simp add: recognised_score_def o)
    let ?st1 = "st\<lparr>ocr_inputs := ocr_inputs st @ [cropped]\<rparr>"
    let ?st2 = "?st1\<lparr>score := candidate_score tx conf, best_text := tx, best_conf := conf,
                       best_color := cropped, best_processed := processed,
                       best_crop_name := crop_name c, best_crop_params := Some c\<rparr>"
    show ?thesis
    proof (cases "candidate_score tx conf > score st")
      case True
      let ?r = "crop_loop img ocr thr (c # cs) st"
      have r: "?r = ?st2 \<or> ?r = crop_loop img ocr thr cs ?st2"
        using Some o True by (simp add: Let_def)
      obtain new' where n: "ocr_inputs (crop_loop img ocr thr cs ?st2) = ocr_inputs ?st2 @ new'"
        using Cons.IH [of ?st2] by blast
      have p: "best_crop_params ?r \<noteq> None"
        using r crop_loop_params_stay [of ?st2 img ocr thr cs] by auto
      from r show ?thesis
      proof
        assume "?r = ?st2"
        then have "ocr_inputs ?r = ocr_inputs st @ [cropped]" by simp
        then show ?thesis using p rs True
          by (intro exI [of _ "[cropped]"]) auto
      next
        assume "?r = crop_loop img ocr thr cs ?st2"
        then have "ocr_inputs ?r = ocr_inputs st @ (cropped # new')" using n by simp
        then show ?thesis using p rs True
          by (intro exI [of _ "cropped # new'"]) auto
      qed
    next
      case False
      let ?r = "crop_loop img ocr thr (c # cs) st"
      have r: "?r = crop_loop img ocr thr cs ?st1"
        using Some o False by (simp add: Let_def)
      obtain new' where n: "ocr_inputs (crop_loop img ocr thr cs ?st1) = ocr_inputs ?st1 @ new'"
        and u: "(\<forall>c \<in> set new'. recognised_score ocr c \<le> score ?st1) \<longrightarrow>
                 crop_loop img ocr thr cs ?st1 = ?st1\<lparr>ocr_inputs := ocr_inputs ?st1 @ new'\<rparr>"
        and e: "(\<exists>c \<in> set new'. recognised_score ocr c > score ?st1) \<longrightarrow>
                 best_crop_params (crop_loop img ocr thr cs ?st1) \<noteq> None"
        using Cons.IH [of ?st1] by blast
      have i: "ocr_inputs ?r = ocr_inputs st @ (cropped # new')" using r n by simp
      show ?thesis
        using i u e r rs False
        by (intro exI [of _ "cropped # new'"]) auto
    qed
  qed
qed

lemma full_image_state_simps:
  "ocr_inputs (full_image_state img ocr) = [img]"
  "best_crop_params (full_image_state img ocr) = None"
  "best_color (full_image_state img ocr) = img"
  "score (full_image_state img ocr) =
     candidate_score (best_text (full_image_state img ocr)) (best_conf (full_image_state img ocr))"
  by (simp_all add: full_image_state_def split: prod.splits)

lemma crop_loop_stops_at_exit:
  "\<not> exits thr st \<Longrightarrow> exits thr (crop_loop img ocr thr cs st) \<Longrightarrow>
   last (ocr_inputs (crop_loop img ocr thr cs st)) = best_color (crop_loop img ocr thr cs st)"
proof (induction cs arbitrary: st)
  case Nil
  then show ?case by simp
next
  case (Cons c cs)
  show ?case
  proof (cases "apply_crop img c")
    case None
    then show ?thesis using Cons by simp
  next
    case (Some cropped)
    obtain tx conf processed where o: "ocr cropped = (tx, conf, processed)"
      by (cases "ocr cropped")
    let ?st1 = "st\<lparr>ocr_inputs := ocr_inputs st @ [cropped]\<rparr>"
    let ?st2 = "?st1\<lparr>score := candidate_score tx conf, best_text := tx, best_conf := conf,
                       best_color := cropped, best_processed := processed,
                       best_crop_name := crop_name c, best_crop_params := Some c\<rparr>"
    have n1: "\<not> exits thr ?st1" using Cons.prems(1) by (simp add: exits_def)
    show ?thesis
    proof (cases "candidate_score tx conf > score st")
      case False
      then have r: "crop_loop img ocr thr (c # cs) st = crop_loop img ocr thr cs ?st1"
        using Some o by (simp add: Let_def)
      show ?thesis
        unfolding r using Cons.IH [OF n1] Cons.prems(2) unfolding r by simp
    next
      case True
      show ?thesis
      proof (cases "conf \<ge> thr \<and> has_order_id tx")
        case True
        then have r: "crop_loop img ocr thr (c # cs) st = ?st2"
          using Some o \<open>candidate_score tx conf > score st\<close> by (simp add: Let_def)
        show ?thesis unfolding r by simp
      next
        case False
        then have r: "crop_loop img ocr thr (c # cs) st = crop_loop img ocr thr cs ?st2"
          using Some o \<open>candidate_score tx conf > score st\<close> by (auto simp: Let_def)
        have n2: "\<not> exits thr ?st2" using False by (simp add: exits_def)
        show ?thesis
          unfolding r using Cons.IH [OF n2] Cons.prems(2) unfolding r by simp
      qed
    qed
  qed
qed

lemma crop_blank: "apply_crop blank_image (hd default_crop_strategies) = Some no_bottom_crop"
  unfolding blank_image_def no_bottom_crop_def default_crop_strategies_def by code_simp

lemma score_plain: "score (full_image_state blank_image ocr_crop_has_id) = 50"
  using no_id_plain_text
  by (simp add: full_image_state_def ocr_crop_has_id_def blank_image_def candidate_score_def)

lemma full_has_id_result:
  "best_crop_params (find_best_crop default_config blank_image ocr_full_has_id 70) = None"
  "map length (tl (ocr_inputs (find_best_crop default_config blank_image ocr_full_has_id 70)))
     = [80, 80, 85, 80, 80]"
  by code_simp+

lemma full_has_id_scores:
  "map (recognised_score ocr_full_has_id)
     (tl (ocr_inputs (find_best_crop default_config blank_image ocr_full_has_id 70)))
     = [95, 95, 95, 95, 95]"
proof -
  have "map (\<lambda>im. fst (ocr_full_has_id im))
          (tl (ocr_inputs (find_best_crop default_config blank_image ocr_full_has_id 70)))
        = [plain_text, plain_text, plain_text, plain_text, plain_text] \<and>
        map (\<lambda>im. fst (snd (ocr_full_has_id im)))
          (tl (ocr_inputs (find_best_crop default_config blank_image ocr_full_has_id 70)))
        = [95, 95, 95, 95, 95]"
    by code_simp
  then show ?thesis
    using no_id_plain_text
    by (auto simp: recognised_score_def candidate_score_def split: prod.splits)
qed

text \<open>
  Claim C10.  For every image, recognition function and threshold, the candidate that
  \<open>find_best_crop\<close> returns scores at least as high as the full-image attempt; the
  returned crop parameters are \<^verbatim>\<open>None\<close> exactly when no crop that was recognised scored
  strictly above the full image, and then the returned text, confidence, processed
  image and region are those of the full-image attempt.
\<close>

theorem find_best_crop_not_below_full:
  "candidate_score (best_text (full_image_state img ocr)) (best_conf (full_image_state img ocr))
     \<le> candidate_score (best_text (find_best_crop cfg img ocr thr))
                        (best_conf (find_best_crop cfg img ocr thr)) \<and>
   (best_crop_params (find_best_crop cfg img ocr thr) = None \<longleftrightarrow>
      (\<forall>c \<in> set (tl (ocr_inputs (find_best_crop cfg img ocr thr))).
         recognised_score ocr c
           \<le> candidate_score (best_text (full_image_state img ocr))
                              (best_conf (full_image_state img ocr)))) \<and>
   (best_crop_params (find_best_crop cfg img ocr thr) = None \<longrightarrow>
      best_text (find_best_crop cfg img ocr thr) = best_text (full_image_state img ocr) \<and>
      best_conf (find_best_crop cfg img ocr thr) = best_conf (full_image_state img ocr) \<and>
      best_processed (find_best_crop cfg img ocr thr) = best_processed (full_image_state img ocr) \<and>
      best_color (find_best_crop cfg img ocr thr) = img)"
proof -
  let ?full = "full_image_state img ocr"
  let ?res = "find_best_crop cfg img ocr thr"
  let ?loop = "crop_loop img ocr thr (crop_strategies cfg) ?full"
  have cf: "consistent ?full" by (simp add: consistent_def full_image_state_simps)
  have sf: "score ?full = candidate_score (best_text ?full) (best_conf ?full)"
    by (rule full_image_state_simps)
  show ?thesis
  proof (cases "best_conf ?full \<ge> thr \<and> has_order_id (best_text ?full)")
    case True
    then have "?res = ?full" by (simp add: find_best_crop_def Let_def)
    then show ?thesis by (simp add: full_image_state_simps)
  next
    case False
    then have res: "?res = ?loop" by (auto simp: find_best_crop_def Let_def)
    have a: "consistent ?loop \<and> score ?full \<le> score ?loop"
      by (rule crop_loop_consistent [OF cf])
    obtain new where n: "ocr_inputs ?loop = ocr_inputs ?full @ new"
      and u: "(\<forall>c \<in> set new. recognised_score ocr c \<le> score ?full) \<longrightarrow>
               ?loop = ?full\<lparr>ocr_inputs := ocr_inputs ?full @ new\<rparr>"
      and e: "(\<exists>c \<in> set new. recognised_score ocr c > score ?full) \<longrightarrow>
               best_crop_params ?loop \<noteq> None"
      using crop_loop_inputs [of img ocr thr "crop_strategies cfg" ?full] by blast
    have t: "tl (ocr_inputs ?loop) = new" using n by (simp add: full_image_state_simps)
    have p1: "candidate_score (best_text ?full) (best_conf ?full)
                \<le> candidate_score (best_text ?loop) (best_conf ?loop)"
      using a sf by (simp add: consistent_def)
    have p2: "best_crop_params ?loop = None \<longleftrightarrow>
                (\<forall>c \<in> set new. recognised_score ocr c \<le> score ?full)"
    proof
      assume "best_crop_params ?loop = None"
      with e show "\<forall>c \<in> set new. recognised_score ocr c \<le> score ?full"
        by (meson not_le_imp_less)
    next
      assume h: "\<forall>c \<in> set new. recognised_score ocr c \<le> score ?full"
      with u have "?loop = ?full\<lparr>ocr_inputs := ocr_inputs ?full @ new\<rparr>" by blast
      then have "best_crop_params ?loop = best_crop_params ?full"
        by (metis (no_types) crop_search.select_convs(6) crop_search.surjective
            crop_search.update_convs(8))
      then show "best_crop_params ?loop = None" by (simp add: full_image_state_simps)
    qed
    have p3: "best_crop_params ?loop = None \<longrightarrow>
                best_text ?loop = best_text ?full \<and> best_conf ?loop = best_conf ?full \<and>
                best_processed ?loop = best_processed ?full \<and> best_color ?loop = img"
    proof
      assume "best_crop_params ?loop = None"
      with p2 u have eq: "?loop = ?full\<lparr>ocr_inputs := ocr_inputs ?full @ new\<rparr>" by blast
      have "best_text ?loop = best_text ?full" "best_conf ?loop = best_conf ?full"
           "best_processed ?loop = best_processed ?full" "best_color ?loop = best_color ?full"
        by (subst eq, simp)+
      then show "best_text ?loop = best_text ?full \<and> best_conf ?loop = best_conf ?full \<and>
                best_processed ?loop = best_processed ?full \<and> best_color ?loop = img"
        by (simp add: full_image_state_simps)
    qed
    show ?thesis
      unfolding res t using p1 p2 p3 sf by simp
  qed
qed

theorem find_best_crop_not_below_full_witness:
  "best_crop_params (find_best_crop default_config blank_image ocr_full_has_id 70) = None \<and>
   map (recognised_score ocr_full_has_id)
     (tl (ocr_inputs (find_best_crop default_config blank_image ocr_full_has_id 70)))
     = [95, 95, 95, 95, 95] \<and>
   candidate_score (best_text (full_image_state blank_image ocr_full_has_id))
                   (best_conf (full_image_state blank_image ocr_full_has_id)) = 160 \<and>
   best_text (find_best_crop default_config blank_image ocr_full_has_id 70) = id_text \<and>
   best_conf (find_best_crop default_config blank_image ocr_full_has_id 70) = 60"
proof -
  have f: "best_text (full_image_state blank_image ocr_full_has_id) = id_text"
          "best_conf (full_image_state blank_image ocr_full_has_id) = 60"
    by (simp_all add: full_image_state_def ocr_full_has_id_def blank_image_def)
  show ?thesis
    using find_best_crop_not_below_full
            [where img = blank_image and ocr = ocr_full_has_id and cfg = default_config
               and thr = 70]
          full_has_id_result full_has_id_scores f has_id_text
    by (simp add: candidate_score_def)
qed

text \<open>
  Claim C3, amended.  \<open>find_best_crop\<close> returns right after the full image, with no
  crop recognised, whenever the confidence of the full image (without the bonus of 100)
  is at least the threshold and its text holds an order id; the crop loop stops at a
  crop strategy, whatever strategies remain, whenever that crop's score strictly exceeds
  the running best score, its confidence is at least the threshold and its text holds
  an order id; and whenever the returned candidate meets threshold and id, it is the
  last image that was recognised.
\<close>

theorem early_exit_on_confident_id:
  "(best_conf (full_image_state img ocr) \<ge> thr \<and>
    has_order_id (best_text (full_image_state img ocr)) \<longrightarrow>
      find_best_crop cfg img ocr thr = full_image_state img ocr \<and>
      ocr_inputs (find_best_crop cfg img ocr thr) = [img]) \<and>
   (apply_crop img c = Some cropped \<and> ocr cropped = (tx, conf, processed) \<and>
    conf \<ge> thr \<and> has_order_id tx \<and> candidate_score tx conf > score st \<longrightarrow>
      crop_loop img ocr thr (c # rest) st =
        st\<lparr>ocr_inputs := ocr_inputs st @ [cropped],
           score := candidate_score tx conf, best_text := tx, best_conf := conf,
           best_color := cropped, best_processed := processed,
           best_crop_name := crop_name c, best_crop_params := Some c\<rparr>) \<and>
   (best_conf (find_best_crop cfg img ocr thr) \<ge> thr \<and>
    has_order_id (best_text (find_best_crop cfg img ocr thr)) \<longrightarrow>
      last (ocr_inputs (find_best_crop cfg img ocr thr))
        = best_color (find_best_crop cfg img ocr thr))"
proof -
  let ?full = "full_image_state img ocr"
  have a: "exits thr ?full \<longrightarrow>
             find_best_crop cfg img ocr thr = ?full \<and> ocr_inputs (find_best_crop cfg img ocr thr) = [img]"
    by (simp add: find_best_crop_def Let_def exits_def full_image_state_simps)
  have b: "apply_crop img c = Some cropped \<and> ocr cropped = (tx, conf, processed) \<and>
           conf \<ge> thr \<and> has_order_id tx \<and> candidate_score tx conf > score st \<longrightarrow>
           crop_loop img ocr thr (c # rest) st =
             st\<lparr>ocr_inputs := ocr_inputs st @ [cropped],
                score := candidate_score tx conf, best_text := tx, best_conf := conf,
                best_color := cropped, best_processed := processed,
                best_crop_name := crop_name c, best_crop_params := Some c\<rparr>"
    by (simp add: Let_def)
  have c: "exits thr (find_best_crop cfg img ocr thr) \<longrightarrow>
             last (ocr_inputs (find_best_crop cfg img ocr thr))
               = best_color (find_best_crop cfg img ocr thr)"
  proof (cases "exits thr ?full")
    case True
    then show ?thesis using a by (simp add: full_image_state_simps)
  next
    case False
    then have r: "find_best_crop cfg img ocr thr
                    = crop_loop img ocr thr (crop_strategies cfg) ?full"
      by (auto simp: find_best_crop_def Let_def exits_def)
    show ?thesis
      unfolding r using crop_loop_stops_at_exit [OF False] by blast
  qed
  show ?thesis
    using a b c unfolding exits_def by blast
qed

theorem early_exit_on_confident_id_witness:
  "find_best_crop default_config blank_image ocr_confident 70
     = full_image_state blank_image ocr_confident \<and>
   ocr_inputs (find_best_crop default_config blank_image ocr_confident 70) = [blank_image] \<and>
   ocr_inputs (crop_loop blank_image ocr_crop_has_id 70 default_crop_strategies
                 (full_image_state blank_image ocr_crop_has_id))
     = [blank_image, no_bottom_crop] \<and>
   last (ocr_inputs (find_best_crop default_config blank_image ocr_confident 70))
     = best_color (find_best_crop default_config blank_image ocr_confident 70)"
proof -
  have f: "best_conf (full_image_state blank_image ocr_confident) = 90"
          "best_text (full_image_state blank_image ocr_confident) = id_text"
    by (simp_all add: full_image_state_def ocr_confident_def)
  have o: "ocr_crop_has_id no_bottom_crop = (id_text, 90, 1)"
    by (simp add: ocr_crop_has_id_def no_bottom_crop_def)
  have d: "default_crop_strategies = hd default_crop_strategies # tl default_crop_strategies"
    by (simp add: default_crop_strategies_def)
  have s: "candidate_score id_text 90 > score (full_image_state blank_image ocr_crop_has_id)"
    using has_id_text by (simp add: score_plain candidate_score_def)
  have l: "crop_loop blank_image ocr_crop_has_id 70
             (hd default_crop_strategies # tl default_crop_strategies)
             (full_image_state blank_image ocr_crop_has_id) =
           (full_image_state blank_image ocr_crop_has_id)
             \<lparr>ocr_inputs := ocr_inputs (full_image_state blank_image ocr_crop_has_id) @ [no_bottom_crop],
              score := candidate_score id_text 90, best_text := id_text, best_conf := 90,
              best_color := no_bottom_crop, best_processed := 1,
              best_crop_name := crop_name (hd default_crop_strategies),
              best_crop_params := Some (hd default_crop_strategies)\<rparr>"
    using early_exit_on_confident_id
            [where img = blank_image and ocr = ocr_crop_has_id and thr = 70
               and cfg = default_config and c = "hd default_crop_strategies"
               and cropped = no_bottom_crop and tx = id_text and conf = 90 and processed = 1
               and st = "full_image_state blank_image ocr_crop_has_id"
               and rest = "tl default_crop_strategies"]
          crop_blank o s has_id_text
    by simp
  show ?thesis
    using early_exit_on_confident_id
            [where img = blank_image and ocr = ocr_confident and thr = 70
               and cfg = default_config and c = "hd default_crop_strategies"
               and cropped = no_bottom_crop and tx = id_text and conf = 90 and processed = 0
               and st = "full_image_state blank_image ocr_confident" and rest = "[]"]
          f has_id_text l d
    by (simp add: full_image_state_simps)
qed

text \<open>
  With confidence 50 and an order id on the full image the score 150 meets the threshold
  70, yet all five crop strategies are attempted.
\<close>

theorem early_exit_counterexample:
  "candidate_score (best_text (full_image_state blank_image ocr_low_with_id))
                   (best_conf (full_image_state blank_image ocr_low_with_id)) \<ge> 70 \<and>
   has_order_id (best_text (full_image_state blank_image ocr_low_with_id)) \<and>
   length (ocr_inputs (find_best_crop default_config blank_image ocr_low_with_id 70)) = 6"
proof -
  have a: "length (ocr_inputs (find_best_crop default_config blank_image ocr_low_with_id 70)) = 6"
    by code_simp
  have b: "best_text (full_image_state blank_image ocr_low_with_id) = id_text"
          "best_conf (full_image_state blank_image ocr_low_with_id) = 50"
    by (simp_all add: full_image_state_def ocr_low_with_id_def)
  show ?thesis
    using a b has_id_text by (simp add: candidate_score_def)
qed

subsection \<open>Recognition confidence\<close>

text \<open>
  Claim C4, evaluated where the code departs from it.  The engine reports the
  confidences of the normal variant as the integers -1 and 91 and of the inverted variant
  as 50.  The integer -1 is not equal to the string \<^verbatim>\<open>'-1'\<close> and enters the mean, which
  is 45 instead of 91, and the inverted variant is returned.
\<close>

theorem sentinel_int_not_excluded:
  "ocr_with_confidence stub_backend 0 = (''normal'', 45) \<and>
   ocr_with_confidence stub_backend 1 = (''inverted'', 50) \<and>
   preprocess_image stub_backend 0 = (''inverted'', 50, 1) \<and>
   mean [91] = 91"
  by (simp add: preprocess_image_def ocr_with_confidence_def stub_backend_def mean_def strip_def
      isspace_def)

subsection \<open>Duplicate consolidation\<close>

text \<open>
  Claim C2, evaluated where the code departs from it.  Two records without order ids
  share the key \<^verbatim>\<open>''\<close> and are merged into one row marked as a duplicate, and a record
  whose \<^verbatim>\<open>Order IDs\<close> cell is missing is left out of the result.
\<close>

theorem merge_duplicates_merges_idless:
  "merge_duplicates [result_row ''a.png'' [] 60, result_row ''b.png'' [] 90]
     = Inr [\<lparr>file_name = ''a.png + b.png'', order_ids_cell = Some [],
             confidence_cell = Some 90, is_duplicate = Some True\<rparr>] \<and>
   merge_duplicates [failed_row ''broken.png'', result_row ''c.png'' [''111-1111111-1111111''] 80]
     = Inr [result_row ''c.png'' [''111-1111111-1111111''] 80]"
  by (simp add: merge_duplicates_def has_column_def result_row_def failed_row_def groupby_def
      group_keys_def first_order_id_def List.map_filter_def idxmax_def)

end
